theory Spec2Isabelle
  imports Complex_Main
begin

section \<open>Strings and bytes\<close>

text \<open>
  A Python \<open>str\<close> is a sequence of Unicode code points, a Python \<open>bytes\<close> value a
  sequence of 8-bit characters.  Literals of the source are written as byte strings and
  lifted to \<open>str\<close> by \<open>str\<close>.
\<close>

type_synonym pystr = "nat list"
type_synonym bytes = "char list"

definition str :: "string \<Rightarrow> pystr" where
  "str s = map of_char s"

definition startswith :: "'a list \<Rightarrow> 'a list \<Rightarrow> bool" where
  \<comment> \<open>\<open>s.startswith(p)\<close>\<close>
  "startswith p s = (take (length p) s = p)"

definition slice :: "'a list \<Rightarrow> nat \<Rightarrow> nat \<Rightarrow> 'a list" where
  \<comment> \<open>\<open>s[a:b]\<close> for \<open>0 \<le> a\<close> and \<open>0 \<le> b\<close>\<close>
  "slice s a b = take (b - a) (drop a s)"

definition is_space :: "nat \<Rightarrow> bool" where
  \<comment> \<open>\<open>str.isspace\<close> on one code point: the characters \<open>str.strip()\<close> removes\<close>
  "is_space c = (c \<in> set [9, 10, 11, 12, 13, 28, 29, 30, 31, 32, 133, 160, 5760,
      8192, 8193, 8194, 8195, 8196, 8197, 8198, 8199, 8200, 8201, 8202,
      8232, 8233, 8239, 8287, 12288])"

definition strip :: "pystr \<Rightarrow> pystr" where
  \<comment> \<open>\<open>s.strip()\<close>\<close>
  "strip s = rev (dropWhile is_space (rev (dropWhile is_space s)))"

definition is_space_byte :: "char \<Rightarrow> bool" where
  \<comment> \<open>the ASCII whitespace \<open>bytes.strip()\<close> removes: space, tab, LF, CR, VT, FF\<close>
  "is_space_byte c = (of_char c \<in> set [32, 9, 10, 13, 11, 12 :: nat])"

definition bytes_strip :: "bytes \<Rightarrow> bytes" where
  "bytes_strip s = rev (dropWhile is_space_byte (rev (dropWhile is_space_byte s)))"

section \<open>The image pattern\<close>

text \<open>
  \<open>re.finditer(r"!\[\]\((.+?)\)", text)\<close>: the literal \<open>![](\<close>, then a lazy run of one or
  more characters other than the newline, then \<open>)\<close>.  The lazy group takes its first
  character whatever it is (a newline apart) and then stops at the first \<open>)\<close>; a newline
  met before that \<open>)\<close> makes the attempt at this position fail.  Matches are found from
  left to right and do not overlap; each is (start, end, group 1).
\<close>

definition newline :: nat where "newline = 10"
definition rparen :: nat where "rparen = 41"

fun find_close :: "pystr \<Rightarrow> nat option" where
  "find_close [] = None"
| "find_close (c # cs) =
     (if c = rparen then Some 0
      else if c = newline then None
      else map_option Suc (find_close cs))"

definition match_here :: "pystr \<Rightarrow> (nat \<times> pystr) option" where
  \<comment> \<open>the pattern anchored at the head of \<open>s\<close>: length of the match and group 1\<close>
  "match_here s =
     (if startswith (str ''![]('') s then
        (case drop 4 s of
           [] \<Rightarrow> None
         | c # cs \<Rightarrow>
             if c = newline then None
             else (case find_close cs of
                     None \<Rightarrow> None
                   | Some k \<Rightarrow> Some (k + 6, c # take k cs)))
      else None)"

lemma find_close_le: "find_close cs = Some k \<Longrightarrow> k < length cs"
  by (induction cs arbitrary: k) (auto split: if_splits)

lemma match_here_bounds:
  assumes "match_here s = Some (n, g)"
  shows "6 \<le> n" and "n \<le> length s"
proof -
  from assms obtain c cs k where d: "drop 4 s = c # cs" and k: "find_close cs = Some k"
    and n: "n = k + 6"
    by (auto simp: match_here_def split: if_splits list.splits option.splits)
  show "6 \<le> n" using n by simp
  have "length (drop 4 s) = Suc (length cs)" using d by simp
  then have "length s = length cs + 5" by simp
  with find_close_le [OF k] n show "n \<le> length s" by simp
qed

type_synonym match = "nat \<times> nat \<times> pystr"

function finditer_from :: "nat \<Rightarrow> pystr \<Rightarrow> match list" where
  "finditer_from pos s =
     (case s of
        [] \<Rightarrow> []
      | c # cs \<Rightarrow>
          (case match_here s of
             Some (n, g) \<Rightarrow> (pos, pos + n, g) # finditer_from (pos + n) (drop n s)
           | None \<Rightarrow> finditer_from (Suc pos) cs))"
  by pat_completeness auto
termination
  by (relation "measure (\<lambda>(pos, s). length s)")
     (auto dest: match_here_bounds(1))

declare finditer_from.simps [simp del]

definition finditer :: "pystr \<Rightarrow> match list" where
  "finditer text = finditer_from 0 text"

section \<open>Errors and the outside world\<close>

datatype error =
    ValueError | ConnectionError | RequestFailed nat | UnicodeDecodeError
  | JSONDecodeError | TypeError | KeyError | IndexError | OSError

text \<open>
  The file system is a collaborator of \<open>encode_image_to_base64\<close>: \<open>os.path.normpath\<close>,
  \<open>os.path.exists\<close> and \<open>open(p, "rb").read()\<close> are taken as they answer.  What the
  function asks of it, and what it prints, is kept as a log.
\<close>

record fs =
  normpath :: "pystr \<Rightarrow> pystr"
  path_exists :: "pystr \<Rightarrow> bool"
  read_file :: "pystr \<Rightarrow> error + bytes"

datatype io = Exists pystr | Read pystr | Print pystr

subsection \<open>\<open>base64.b64encode\<close>\<close>

definition b64_alphabet :: pystr where
  "b64_alphabet = str ''ABCDEFGHIJKLMNOPQRSTUVWXYZabcdefghijklmnopqrstuvwxyz0123456789+/''"

definition b64_char :: "nat \<Rightarrow> nat" where
  "b64_char i = b64_alphabet ! (i mod 64)"

fun b64_groups :: "nat list \<Rightarrow> pystr" where
  "b64_groups (a # b # c # rest) =
     [b64_char (a div 4), b64_char ((a mod 4) * 16 + b div 16),
      b64_char ((b mod 16) * 4 + c div 64), b64_char (c mod 64)] @ b64_groups rest"
| "b64_groups [a, b] =
     [b64_char (a div 4), b64_char ((a mod 4) * 16 + b div 16), b64_char ((b mod 16) * 4), 61]"
| "b64_groups [a] = [b64_char (a div 4), b64_char ((a mod 4) * 16), 61, 61]"
| "b64_groups [] = []"

definition b64encode :: "bytes \<Rightarrow> pystr" where
  "b64encode bs = b64_groups (map of_char bs)"

section \<open>\<open>encode_image_to_base64\<close>\<close>

definition encode_image_to_base64 :: "fs \<Rightarrow> pystr \<Rightarrow> pystr option \<times> io list" where
  "encode_image_to_base64 env image_path =
     (if startswith (str ''http://'') image_path \<or> startswith (str ''https://'') image_path
      then (Some image_path, [])
      else
        let normalized_path = normpath env image_path in
        if \<not> path_exists env normalized_path
        then (None, [Exists normalized_path,
                Print (str ''Warning: Image file not found: '' @ normalized_path)])
        else
          (case read_file env normalized_path of
             Inl e \<Rightarrow> (None, [Exists normalized_path, Read normalized_path,
                         Print (str ''Error encoding image'')])
           | Inr image_data \<Rightarrow>
               (Some (str ''data:image/jpeg;base64,'' @ b64encode image_data),
                         [Exists normalized_path, Read normalized_path])))"

section \<open>\<open>process_user_input\<close>\<close>

datatype content_block = Text pystr | Image_url pystr

definition failure_note :: "pystr \<Rightarrow> pystr" where
  "failure_note image_path = str ''[Image processing failed for: '' @ image_path @ str '']''"

text \<open>
  The body of the loop over the matches: the state is \<open>(content, last_end)\<close>.  The test
  \<open>if image_url:\<close> is false on \<open>None\<close> and on the empty string.
\<close>

definition image_step :: "fs \<Rightarrow> pystr \<Rightarrow> content_block list \<times> nat \<Rightarrow> match \<Rightarrow> content_block list \<times> nat" where
  "image_step env text st m =
     (case (st, m) of ((content, last_end), (start, end_pos, group1)) \<Rightarrow>
        let content1 =
              (if start > last_end then
                 (let text_before = strip (slice text last_end start)
                  in if text_before \<noteq> [] then content @ [Text text_before] else content)
               else content);
            image_path = strip group1;
            image_url = fst (encode_image_to_base64 env image_path);
            content2 =
              (case image_url of
                 Some url \<Rightarrow>
                   if url \<noteq> [] then content1 @ [Image_url url]
                   else content1 @ [Text (failure_note image_path)]
               | None \<Rightarrow> content1 @ [Text (failure_note image_path)])
        in (content2, end_pos))"

definition remaining_step :: "pystr \<Rightarrow> content_block list \<times> nat \<Rightarrow> content_block list" where
  \<comment> \<open>after the loop: the text after the last image\<close>
  "remaining_step text st =
     (case st of (content, last_end) \<Rightarrow>
        if last_end < length text then
          (let remaining_text = strip (drop last_end text)
           in if remaining_text \<noteq> [] then content @ [Text remaining_text] else content)
        else content)"

definition process_user_input :: "fs \<Rightarrow> pystr \<Rightarrow> content_block list" where
  "process_user_input env text =
     (let content = remaining_step text (foldl (image_step env text) ([], 0) (finditer text))
      in if content = [] then [Text text] else content)"

subsection \<open>The assembler as the specification words it\<close>

text \<open>
  The specification reads the text as gaps and image markers, from left to right, and
  emits the blocks of each in turn: the trimmed text of a gap when it is not empty, and
  for a marker the image, or the note that names the reference.
\<close>

datatype segment = Gap pystr | Marker pystr

fun segment_text :: "segment \<Rightarrow> pystr" where
  "segment_text (Gap g) = g"
| "segment_text (Marker r) = str ''![]('' @ r @ [rparen]"

function segments_from :: "pystr \<Rightarrow> pystr \<Rightarrow> segment list" where
  "segments_from gap s =
     (case s of
        [] \<Rightarrow> [Gap gap]
      | c # cs \<Rightarrow>
          (case match_here s of
             Some (n, g) \<Rightarrow> Gap gap # Marker g # segments_from [] (drop n s)
           | None \<Rightarrow> segments_from (gap @ [c]) cs))"
  by pat_completeness auto
termination
  by (relation "measure (\<lambda>(gap, s). length s)")
     (auto dest: match_here_bounds(1))

declare segments_from.simps [simp del]

definition segments :: "pystr \<Rightarrow> segment list" where
  "segments text = segments_from [] text"

definition marker_block :: "fs \<Rightarrow> pystr \<Rightarrow> content_block" where
  "marker_block env reference =
     (case fst (encode_image_to_base64 env reference) of
        Some url \<Rightarrow> Image_url url
      | None \<Rightarrow> Text (failure_note reference))"

fun segment_blocks :: "fs \<Rightarrow> segment \<Rightarrow> content_block list" where
  "segment_blocks env (Gap g) = (if strip g = [] then [] else [Text (strip g)])"
| "segment_blocks env (Marker r) = [marker_block env (strip r)]"

definition assemble :: "fs \<Rightarrow> pystr \<Rightarrow> content_block list" where
  "assemble env text = concat (map (segment_blocks env) (segments text))"

section \<open>The event stream\<close>

subsection \<open>\<open>bytes.decode("utf-8")\<close>\<close>

definition is_cont :: "nat \<Rightarrow> bool" where
  "is_cont b = (128 \<le> b \<and> b < 192)"

fun utf8_decode_nat :: "nat list \<Rightarrow> error + pystr" where
  "utf8_decode_nat [] = Inr []"
| "utf8_decode_nat (b # bs) =
     (if b < 128 then map_sum id ((#) b) (utf8_decode_nat bs)
      else if 194 \<le> b \<and> b < 224 then
        (case bs of
           c1 # rest \<Rightarrow>
             if is_cont c1
             then map_sum id ((#) ((b - 192) * 64 + (c1 - 128))) (utf8_decode_nat rest)
             else Inl UnicodeDecodeError
         | _ \<Rightarrow> Inl UnicodeDecodeError)
      else if 224 \<le> b \<and> b < 240 then
        (case bs of
           c1 # c2 # rest \<Rightarrow>
             if (if b = 224 then 160 \<le> c1 \<and> c1 < 192
                 else if b = 237 then 128 \<le> c1 \<and> c1 < 160
                 else is_cont c1) \<and> is_cont c2
             then map_sum id ((#) ((b - 224) * 4096 + (c1 - 128) * 64 + (c2 - 128)))
                    (utf8_decode_nat rest)
             else Inl UnicodeDecodeError
         | _ \<Rightarrow> Inl UnicodeDecodeError)
      else if 240 \<le> b \<and> b < 245 then
        (case bs of
           c1 # c2 # c3 # rest \<Rightarrow>
             if (if b = 240 then 144 \<le> c1 \<and> c1 < 192
                 else if b = 244 then 128 \<le> c1 \<and> c1 < 144
                 else is_cont c1) \<and> is_cont c2 \<and> is_cont c3
             then map_sum id
                    ((#) ((b - 240) * 262144 + (c1 - 128) * 4096 + (c2 - 128) * 64 + (c3 - 128)))
                    (utf8_decode_nat rest)
             else Inl UnicodeDecodeError
         | _ \<Rightarrow> Inl UnicodeDecodeError)
      else Inl UnicodeDecodeError)"

definition utf8_decode :: "bytes \<Rightarrow> error + pystr" where
  "utf8_decode bs = utf8_decode_nat (map of_char bs)"

subsection \<open>Decoded events\<close>

text \<open>
  What \<open>json.loads\<close> returns.  A \<open>dict\<close> is the list of its items (the keys are distinct);
  \<open>json.loads\<close> itself is a parameter \<open>loads\<close> of the decoder, with the exception it raises
  as the error.
\<close>

datatype pyfloat = Finite rat | PosInf | NegInf | NaN

datatype json =
    JNull | JBool bool | JInt int | JFloat pyfloat | JStr pystr
  | JArr "json list" | JObj "(pystr \<times> json) list"

subsection \<open>\<open>DashscopeClient._process_stream\<close>\<close>

text \<open>
  The generator yields the decoded events; it ends normally, or by the exception that
  escapes it.  The result is the list of the events yielded and that exception, if any.
\<close>

fun process_stream :: "(pystr \<Rightarrow> error + json) \<Rightarrow> bytes list \<Rightarrow> json list \<times> error option" where
  "process_stream loads [] = ([], None)"
| "process_stream loads (line # rest) =
     (if line \<noteq> [] then
        (if bytes_strip line = ''data: [DONE]'' then ([], None)
         else if startswith ''data: '' line then
           (case utf8_decode (drop 6 line) of
              Inl e \<Rightarrow> ([], Some e)
            | Inr json_str \<Rightarrow>
                (case loads json_str of
                   Inr chunk \<Rightarrow>
                     (case process_stream loads rest of (chunks, err) \<Rightarrow> (chunk # chunks, err))
                 | Inl e \<Rightarrow>
                     if e = JSONDecodeError then process_stream loads rest
                     else ([], Some e)))
         else process_stream loads rest)
      else process_stream loads rest)"

subsection \<open>\<open>DashscopeClient.chat_completions_create\<close>\<close>

record response =
  status_code :: nat
  iter_lines :: "bytes list"

datatype role = System | User | Assistant

record message =
  m_role :: role
  m_content :: "content_block list"

text \<open>
  \<open>requests.post\<close> is the parameter \<open>post\<close>: from the messages sent, the exception it
  raises or the response.  \<open>main\<close> always asks for a stream.
\<close>

definition chat_completions_create ::
  "(pystr \<Rightarrow> error + json) \<Rightarrow> (message list \<Rightarrow> error + response) \<Rightarrow> message list
     \<Rightarrow> error + (json list \<times> error option)" where
  "chat_completions_create loads post messages =
     (case post messages of
        Inl e \<Rightarrow> Inl e
      | Inr resp \<Rightarrow>
          if status_code resp \<noteq> 200 then Inl (RequestFailed (status_code resp))
          else Inr (process_stream loads (iter_lines resp)))"

section \<open>The session loop of \<open>main\<close>\<close>

subsection \<open>Python's operations on a decoded value\<close>

fun truthy :: "json \<Rightarrow> bool" where
  "truthy JNull = False"
| "truthy (JBool b) = b"
| "truthy (JInt i) = (i \<noteq> 0)"
| "truthy (JFloat f) = (f \<noteq> Finite 0)"
| "truthy (JStr s) = (s \<noteq> [])"
| "truthy (JArr xs) = (xs \<noteq> [])"
| "truthy (JObj kvs) = (kvs \<noteq> [])"

fun is_substring :: "pystr \<Rightarrow> pystr \<Rightarrow> bool" where
  "is_substring p [] = (p = [])"
| "is_substring p (c # cs) = (startswith p (c # cs) \<or> is_substring p cs)"

fun py_in :: "pystr \<Rightarrow> json \<Rightarrow> error + bool" where
  \<comment> \<open>\<open>key in v\<close> for a string \<open>key\<close>\<close>
  "py_in key (JObj kvs) = Inr (map_of kvs key \<noteq> None)"
| "py_in key (JArr xs) = Inr (JStr key \<in> set xs)"
| "py_in key (JStr s) = Inr (is_substring key s)"
| "py_in key _ = Inl TypeError"

fun py_getitem :: "json \<Rightarrow> pystr \<Rightarrow> error + json" where
  \<comment> \<open>\<open>v[key]\<close> for a string \<open>key\<close>\<close>
  "py_getitem (JObj kvs) key = (case map_of kvs key of Some v \<Rightarrow> Inr v | None \<Rightarrow> Inl KeyError)"
| "py_getitem _ key = Inl TypeError"

fun py_first :: "json \<Rightarrow> error + json" where
  \<comment> \<open>\<open>v[0]\<close>\<close>
  "py_first (JArr xs) = (case xs of [] \<Rightarrow> Inl IndexError | x # _ \<Rightarrow> Inr x)"
| "py_first (JStr s) = (case s of [] \<Rightarrow> Inl IndexError | c # _ \<Rightarrow> Inr (JStr [c]))"
| "py_first (JObj kvs) = Inl KeyError"
| "py_first _ = Inl TypeError"

definition bind :: "error + 'a \<Rightarrow> ('a \<Rightarrow> error + 'b) \<Rightarrow> error + 'b" where
  "bind r f = (case r of Inl e \<Rightarrow> Inl e | Inr v \<Rightarrow> f v)"

subsection \<open>The body of \<open>for chunk in completion\<close>\<close>

definition consume_chunk :: "json \<Rightarrow> pystr \<Rightarrow> error + pystr" where
  "consume_chunk chunk full_response =
     bind (py_in (str ''choices'') chunk) (\<lambda>has_choices.
     bind (if has_choices then map_sum id truthy (py_getitem chunk (str ''choices''))
           else Inr False) (\<lambda>choices_true.
       if choices_true then
         bind (py_getitem chunk (str ''choices'')) (\<lambda>choices.
         bind (py_first choices) (\<lambda>choice.
         bind (py_getitem choice (str ''delta'')) (\<lambda>delta.
         bind (py_in (str ''content'') delta) (\<lambda>has_content.
           if has_content then
             bind (py_getitem delta (str ''content'')) (\<lambda>content.
               (case content of
                  JNull \<Rightarrow> Inr full_response
                | JStr s \<Rightarrow> Inr (full_response @ s)
                | _ \<Rightarrow> Inl TypeError))
           else Inr full_response))))
       else
         bind (py_in (str ''usage'') chunk) (\<lambda>has_usage.
           if has_usage then
             bind (py_getitem chunk (str ''usage'')) (\<lambda>usage. Inr full_response)
           else Inr full_response)))"

fun consume :: "json list \<Rightarrow> pystr \<Rightarrow> error + pystr" where
  "consume [] full_response = Inr full_response"
| "consume (chunk # chunks) full_response =
     bind (consume_chunk chunk full_response) (consume chunks)"

subsection \<open>One pass of \<open>while True\<close>\<close>

datatype outcome = Skipped | Failed error | Completed pystr

definition user_message :: "fs \<Rightarrow> pystr \<Rightarrow> message" where
  "user_message env user_input =
     \<lparr>m_role = User, m_content = process_user_input env user_input\<rparr>"

definition assistant_message :: "pystr \<Rightarrow> message" where
  "assistant_message full_response = \<lparr>m_role = Assistant, m_content = [Text full_response]\<rparr>"

definition turn ::
  "(pystr \<Rightarrow> error + json) \<Rightarrow> fs \<Rightarrow> (message list \<Rightarrow> error + response) \<Rightarrow> pystr
     \<Rightarrow> message list \<Rightarrow> outcome \<times> message list" where
  "turn loads env post user_input messages =
     (if strip user_input = [] then (Skipped, messages)
      else
        let messages1 = messages @ [user_message env user_input] in
        (case chat_completions_create loads post messages1 of
           Inl e \<Rightarrow> (Failed e, messages1)
         | Inr (chunks, stream_error) \<Rightarrow>
             (case consume chunks [] of
                Inl e \<Rightarrow> (Failed e, messages1)
              | Inr full_response \<Rightarrow>
                  (case stream_error of
                     Some e \<Rightarrow> (Failed e, messages1)
                   | None \<Rightarrow>
                       (Completed full_response,
                        if full_response \<noteq> [] then messages1 @ [assistant_message full_response]
                        else messages1)))))"

definition initial_messages :: "message list" where
  "initial_messages =
     [\<lparr>m_role = System, m_content = [Text (str ''You are a helpful assistant.'')]\<rparr>]"

type_synonym turn_input = "fs \<times> (message list \<Rightarrow> error + response) \<times> pystr"

fun main_loop :: "(pystr \<Rightarrow> error + json) \<Rightarrow> turn_input list \<Rightarrow> message list \<Rightarrow> message list" where
  "main_loop loads [] messages = messages"
| "main_loop loads ((env, post, user_input) # inputs) messages =
     main_loop loads inputs (snd (turn loads env post user_input messages))"

definition main :: "(pystr \<Rightarrow> error + json) \<Rightarrow> turn_input list \<Rightarrow> message list" where
  "main loads inputs = main_loop loads inputs initial_messages"

subsection \<open>The content delta of an event, as the specification words it\<close>

definition content_delta :: "json \<Rightarrow> pystr option" where
  \<comment> \<open>\<open>choices[0].delta.content\<close> when it is there and not null\<close>
  "content_delta event =
     (case event of
        JObj kvs \<Rightarrow>
          (case map_of kvs (str ''choices'') of
             Some (JArr (JObj choice # _)) \<Rightarrow>
               (case map_of choice (str ''delta'') of
                  Some (JObj delta) \<Rightarrow>
                    (case map_of delta (str ''content'') of
                       Some (JStr s) \<Rightarrow> Some s
                     | _ \<Rightarrow> None)
                | _ \<Rightarrow> None)
           | _ \<Rightarrow> None)
      | _ \<Rightarrow> None)"



definition delta_ok :: "json \<Rightarrow> bool" where
  "delta_ok delta =
     (case delta of
        JObj kvs \<Rightarrow>
          (case map_of kvs (str ''content'') of
             None \<Rightarrow> True
           | Some JNull \<Rightarrow> True
           | Some (JStr s) \<Rightarrow> True
           | Some _ \<Rightarrow> False)
      | _ \<Rightarrow> False)"

definition choice_ok :: "json \<Rightarrow> bool" where
  "choice_ok choice =
     (case choice of
        JObj kvs \<Rightarrow> (case map_of kvs (str ''delta'') of Some delta \<Rightarrow> delta_ok delta | None \<Rightarrow> False)
      | _ \<Rightarrow> False)"

definition stream_event :: "json \<Rightarrow> bool" where
  "stream_event event =
     (case event of
        JObj kvs \<Rightarrow>
          (case map_of kvs (str ''choices'') of
             None \<Rightarrow> True
           | Some (JArr choices) \<Rightarrow> list_all choice_ok choices
           | Some _ \<Rightarrow> False)
      | _ \<Rightarrow> False)"

subsection \<open>Sample collaborators\<close>

text \<open>
  Concrete file systems, payloads and a parser that knows these payloads only, for the
  instances at which the theorems below are applied.
\<close>

definition no_files :: fs where
  "no_files = \<lparr>normpath = id, path_exists = (\<lambda>p. False), read_file = (\<lambda>p. Inl OSError)\<rparr>"

definition one_image :: fs where
  "one_image = \<lparr>normpath = id, path_exists = (\<lambda>p. p = str ''img.png''),
     read_file = (\<lambda>p. if p = str ''img.png'' then Inr [CHR 0x00] else Inl OSError)\<rparr>"

definition delta_event :: "pystr \<Rightarrow> json" where
  "delta_event s =
     JObj [(str ''choices'', JArr [JObj [(str ''delta'', JObj [(str ''content'', JStr s)])]])]"

definition hi_payload :: string where
  \<open>hi_payload = ''{"choices":[{"delta":{"content":"hi"}}]}''\<close>

definition ignored_payload :: string where
  \<open>ignored_payload = ''{"choices":[{"delta":{"content":"ignored"}}]}''\<close>

definition he_payload :: string where
  \<open>he_payload = ''{"choices":[{"delta":{"content":"He"}}]}''\<close>

definition llo_payload :: string where
  \<open>llo_payload = ''{"choices":[{"delta":{"content":"llo"}}]}''\<close>

definition sample_loads :: "pystr \<Rightarrow> error + json" where
  "sample_loads s =
     (if s = str hi_payload then Inr (delta_event (str ''hi''))
      else if s = str ignored_payload then Inr (delta_event (str ''ignored''))
      else if s = str he_payload then Inr (delta_event (str ''He''))
      else if s = str llo_payload then Inr (delta_event (str ''llo''))
      else if s = str ''{}'' then Inr (JObj [])
      else Inl JSONDecodeError)"

definition sample_response :: response where
  "sample_response =
     \<lparr>status_code = 200,
      iter_lines = [''data: '' @ he_payload, [], ''data: '' @ llo_payload, ''data: [DONE]'']\<rparr>"

definition sample_post :: "message list \<Rightarrow> error + response" where
  "sample_post messages = Inr sample_response"

definition failing_post :: "message list \<Rightarrow> error + response" where
  "failing_post messages = Inl ConnectionError"

definition speaks :: "message \<Rightarrow> bool" where
  \<comment> \<open>a message of the user or of the assistant\<close>
  "speaks m = (m_role m = User \<or> m_role m = Assistant)"

section \<open>Facts about the image pattern\<close>

lemma match_here_Nil: "match_here [] = None"
  by (simp add: match_here_def)

lemma finditer_from_Nil: "finditer_from pos [] = []"
  by (simp add: finditer_from.simps)

lemma finditer_from_match:
  "match_here s = Some (n, g) \<Longrightarrow>
   finditer_from pos s = (pos, pos + n, g) # finditer_from (pos + n) (drop n s)"
  by (subst finditer_from.simps) (auto simp: match_here_Nil split: list.splits)

lemma finditer_from_skip:
  "match_here (c # cs) = None \<Longrightarrow> finditer_from pos (c # cs) = finditer_from (Suc pos) cs"
  by (subst finditer_from.simps) simp

lemma segments_from_Nil: "segments_from gap [] = [Gap gap]"
  by (simp add: segments_from.simps)

lemma segments_from_match:
  "match_here s = Some (n, g) \<Longrightarrow>
   segments_from gap s = Gap gap # Marker g # segments_from [] (drop n s)"
  by (subst segments_from.simps) (auto simp: match_here_Nil split: list.splits)

lemma segments_from_skip:
  "match_here (c # cs) = None \<Longrightarrow> segments_from gap (c # cs) = segments_from (gap @ [c]) cs"
  by (subst segments_from.simps) simp

lemma find_close_text:
  "find_close cs = Some k \<Longrightarrow> take (Suc k) cs = take k cs @ [rparen]"
  by (induction cs arbitrary: k) (auto split: if_splits)

lemma match_here_text:
  assumes "match_here s = Some (n, g)"
  shows "take n s = str ''![]('' @ g @ [rparen]"
proof -
  have len: "length (str ''![]('') = 4" by (simp add: str_def)
  from assms have "startswith (str ''![]('') s"
    by (simp add: match_here_def split: if_splits)
  then have p: "take 4 s = str ''![](''"
    unfolding startswith_def len .
  from assms obtain c cs k where d: "drop 4 s = c # cs"
    and k: "find_close cs = Some k" and n: "n = k + 6" and g: "g = c # take k cs"
    by (auto simp: match_here_def split: if_splits list.splits option.splits)
  have "s = take 4 s @ drop 4 s" by simp
  then have s: "s = str ''![]('' @ c # cs" using p d by simp
  have n': "n = Suc (Suc (Suc (Suc (Suc (Suc k)))))" using n by simp
  have "take n s = str ''![]('' @ c # take (Suc k) cs"
    by (subst s) (simp add: n' str_def)
  then show ?thesis using find_close_text [OF k] g by simp
qed

lemma segments_from_concat: "concat (map segment_text (segments_from gap s)) = gap @ s"
proof (induction "length s" arbitrary: gap s rule: less_induct)
  case less
  show ?case
  proof (cases s)
    case Nil
    then show ?thesis by (simp add: segments_from_Nil)
  next
    case (Cons c cs)
    show ?thesis
    proof (cases "match_here s")
      case None
      with Cons less [of cs "gap @ [c]"] show ?thesis by (simp add: segments_from_skip)
    next
      case (Some ng)
      obtain n g where ng: "ng = (n, g)" by (cases ng)
      have m: "match_here s = Some (n, g)" using Some ng by simp
      have "length (drop n s) < length s"
        using match_here_bounds [OF m] Cons by simp
      then have ih: "concat (map segment_text (segments_from [] (drop n s))) = drop n s"
        using less [of "drop n s" "[]"] by simp
      have "take n s @ drop n s = s" by simp
      with match_here_text [OF m] ih show ?thesis
        by (simp add: segments_from_match [OF m] del: append_take_drop_id)
    qed
  qed
qed

section \<open>The loop of \<open>process_user_input\<close> against the specification\<close>

lemma strip_Nil: "strip [] = []"
  by (simp add: strip_def)

lemma startswith_nonempty: "startswith p s \<Longrightarrow> p \<noteq> [] \<Longrightarrow> s \<noteq> []"
  by (auto simp: startswith_def)

lemma encode_nonempty: "fst (encode_image_to_base64 env p) = Some url \<Longrightarrow> url \<noteq> []"
proof -
  assume a: "fst (encode_image_to_base64 env p) = Some url"
  show "url \<noteq> []"
  proof (cases "startswith (str ''http://'') p \<or> startswith (str ''https://'') p")
    case True
    then have "p \<noteq> []" by (auto dest: startswith_nonempty simp: str_def)
    moreover from True a have "url = p" by (simp add: encode_image_to_base64_def)
    ultimately show ?thesis by simp
  next
    case False
    with a show ?thesis
      by (auto simp: encode_image_to_base64_def Let_def str_def split: if_splits sum.splits)
  qed
qed

lemma image_step_eq:
  "image_step env text (content, last_end) (start, e, g) =
     (content @ segment_blocks env (Gap (slice text last_end start))
        @ [marker_block env (strip g)], e)"
proof -
  have gap: "\<not> last_end < start \<Longrightarrow> strip (slice text last_end start) = []"
    by (simp add: slice_def strip_Nil)
  show ?thesis
    using gap
    by (auto simp: image_step_def Let_def marker_block_def
        split: option.splits dest: encode_nonempty)
qed

lemma remaining_step_eq:
  "remaining_step text (content, last_end) = content @ segment_blocks env (Gap (drop last_end text))"
  by (auto simp: remaining_step_def Let_def strip_Nil)

lemma loop_segments:
  "text = pre @ s \<Longrightarrow> last_end \<le> length pre \<Longrightarrow>
   remaining_step text
     (foldl (image_step env text) (content, last_end) (finditer_from (length pre) s)) =
   content @ concat (map (segment_blocks env) (segments_from (drop last_end pre) s))"
proof (induction "length s" arbitrary: pre s content last_end rule: less_induct)
  case less
  note tx = \<open>text = pre @ s\<close> and le = \<open>last_end \<le> length pre\<close>
  show ?case
  proof (cases s)
    case Nil
    with tx le show ?thesis
      by (simp add: finditer_from_Nil segments_from_Nil remaining_step_eq [of _ _ _ env])
  next
    case (Cons c cs)
    show ?thesis
    proof (cases "match_here s")
      case None
      have "text = (pre @ [c]) @ cs" using tx Cons by simp
      moreover have "last_end \<le> length (pre @ [c])" using le by simp
      moreover have "length cs < length s" using Cons by simp
      ultimately have
        "remaining_step text
           (foldl (image_step env text) (content, last_end) (finditer_from (length (pre @ [c])) cs)) =
         content @ concat (map (segment_blocks env) (segments_from (drop last_end (pre @ [c])) cs))"
        by (rule less.hyps [of cs "pre @ [c]" last_end content, rotated])
      with None Cons le show ?thesis
        by (simp add: finditer_from_skip segments_from_skip)
    next
      case (Some ng)
      obtain n g where ng: "ng = (n, g)" by (cases ng)
      have m: "match_here s = Some (n, g)" using Some ng by simp
      have n: "6 \<le> n" "n \<le> length s" using match_here_bounds [OF m] by auto
      let ?pre = "pre @ take n s"
      let ?content = "content @ segment_blocks env (Gap (drop last_end pre))
                        @ [marker_block env (strip g)]"
      have sl: "slice text last_end (length pre) = drop last_end pre"
        using tx le by (simp add: slice_def)
      have "text = ?pre @ drop n s" using tx by simp
      moreover have "length pre + n \<le> length ?pre" using n by simp
      moreover have "length (drop n s) < length s" using n Cons by simp
      ultimately have
        "remaining_step text
           (foldl (image_step env text) (?content, length pre + n)
              (finditer_from (length ?pre) (drop n s))) =
         ?content @ concat (map (segment_blocks env)
              (segments_from (drop (length pre + n) ?pre) (drop n s)))"
        by (rule less.hyps [of "drop n s" ?pre "length pre + n" ?content, rotated])
      moreover have "length ?pre = length pre + n" using n by simp
      ultimately show ?thesis
        by (simp add: finditer_from_match [OF m] segments_from_match [OF m] image_step_eq sl)
    qed
  qed
qed

lemma process_user_input_assemble:
  "process_user_input env text =
     (if assemble env text = [] then [Text text] else assemble env text)"
  using loop_segments [of "text" "[]" "text" 0 env "[]"]
  by (simp add: process_user_input_def assemble_def finditer_def segments_def Let_def)

section \<open>Facts about the stream decoder\<close>

lemma bytes_strip_Nil: "bytes_strip [] = []"
  by (simp add: bytes_strip_def)

lemma utf8_decode_ff: "utf8_decode [CHR 0xFF] = Inl UnicodeDecodeError"
  by (simp add: utf8_decode_def)

lemma utf8_decode_nat_ascii:
  "\<forall>b \<in> set bs. b < 128 \<Longrightarrow> utf8_decode_nat bs = Inr bs"
  by (induction bs) auto

lemma utf8_decode_ascii:
  "\<forall>c \<in> set bs. of_char c < (128::nat) \<Longrightarrow> utf8_decode bs = Inr (str bs)"
  by (simp add: utf8_decode_def str_def utf8_decode_nat_ascii)

lemma process_stream_done:
  "bytes_strip l = ''data: [DONE]'' \<Longrightarrow> process_stream loads (l # rest) = ([], None)"
  by (cases "l = []") (auto simp: bytes_strip_Nil)

lemma process_stream_append_done:
  "bytes_strip l = ''data: [DONE]'' \<Longrightarrow>
   process_stream loads (pre @ l # post) = process_stream loads pre"
proof (induction pre)
  case Nil
  then show ?case by (simp only: append_Nil process_stream_done process_stream.simps(1))
next
  case (Cons a pre)
  then show ?case by (simp split: sum.splits prod.splits)
qed

lemma process_stream_data_line:
  assumes "utf8_decode p = Inr s" and "bytes_strip (''data: '' @ p) \<noteq> ''data: [DONE]''"
  shows "process_stream loads ((''data: '' @ p) # rest) =
     (case loads s of
        Inr chunk \<Rightarrow> (case process_stream loads rest of (chunks, err) \<Rightarrow> (chunk # chunks, err))
      | Inl e \<Rightarrow> if e = JSONDecodeError then process_stream loads rest else ([], Some e))"
  using assms by (simp add: startswith_def)

lemma process_stream_skips_malformed:
  assumes "utf8_decode p = Inr s" and "bytes_strip (''data: '' @ p) \<noteq> ''data: [DONE]''"
    and "loads s = Inl JSONDecodeError"
  shows "process_stream loads ((''data: '' @ p) # rest) = process_stream loads rest"
  using assms by (simp add: process_stream_data_line)

lemma hi_line: "utf8_decode hi_payload = Inr (str hi_payload)"
  by (rule utf8_decode_ascii) (simp add: hi_payload_def)

lemma hi_line_not_done: "bytes_strip (''data: '' @ hi_payload) \<noteq> ''data: [DONE]''"
  by (simp add: hi_payload_def bytes_strip_def is_space_byte_def)

lemma done_line: "bytes_strip ''data: [DONE]'' = ''data: [DONE]''"
  by (simp add: bytes_strip_def is_space_byte_def)

lemma sample_loads_hi: "sample_loads (str hi_payload) = Inr (delta_event (str ''hi''))"
  by (simp add: sample_loads_def)





lemma segments_example:
  "segments (str ''see ![](img.png) now'') =
     [Gap (str ''see ''), Marker (str ''img.png''), Gap (str '' now'')]"
  by (simp add: segments_def str_def segments_from_Nil segments_from_skip segments_from_match
      match_here_def startswith_def newline_def rparen_def)

lemma strip_example:
  "strip (str ''see '') = str ''see''" "strip (str ''img.png'') = str ''img.png''"
  "strip (str '' now'') = str ''now''"
  by (simp_all add: strip_def str_def is_space_def)

lemma str_nonempty: "str ''see'' \<noteq> []" "str ''now'' \<noteq> []"
  by (simp_all add: str_def)

lemma one_image_resolves:
  "fst (encode_image_to_base64 one_image (str ''img.png'')) = Some (str ''data:image/jpeg;base64,AA=='')"
  by (simp add: encode_image_to_base64_def one_image_def startswith_def str_def b64encode_def
      b64_char_def b64_alphabet_def Let_def)




lemma bind_Inr [simp]: "bind (Inr v) f = f v"
  by (simp add: bind_def)

lemma bind_Inl [simp]: "bind (Inl e) f = Inl e"
  by (simp add: bind_def)

lemma consume_chunk_no_choices:
  "map_of kvs (str ''choices'') = None \<Longrightarrow>
   consume_chunk (JObj kvs) full_response = Inr full_response"
  by (cases "map_of kvs (str ''usage'')") (simp_all add: consume_chunk_def)

lemma consume_chunk_falsy_choices:
  "map_of kvs (str ''choices'') = Some v \<Longrightarrow> \<not> truthy v \<Longrightarrow>
   consume_chunk (JObj kvs) full_response = Inr full_response"
  by (cases "map_of kvs (str ''usage'')") (simp_all add: consume_chunk_def)

lemma consume_chunk_delta:
  "map_of kvs (str ''choices'') = Some (JArr (JObj choice # rest)) \<Longrightarrow>
   map_of choice (str ''delta'') = Some (JObj delta) \<Longrightarrow>
   consume_chunk (JObj kvs) full_response =
     (case map_of delta (str ''content'') of
        None \<Rightarrow> Inr full_response
      | Some JNull \<Rightarrow> Inr full_response
      | Some (JStr s) \<Rightarrow> Inr (full_response @ s)
      | Some _ \<Rightarrow> Inl TypeError)"
  by (simp add: consume_chunk_def split: option.splits json.splits)

lemma consume_chunk_content:
  "consume_chunk chunk full_response = Inr r \<Longrightarrow>
   r = full_response @ (case content_delta chunk of Some s \<Rightarrow> s | None \<Rightarrow> [])"
  by (auto simp: consume_chunk_def content_delta_def bind_def
      split: json.splits option.splits list.splits sum.splits if_splits)

lemma consume_chunk_stream_event:
  assumes "stream_event event"
  shows "consume_chunk event full_response =
           Inr (full_response @ (case content_delta event of Some s \<Rightarrow> s | None \<Rightarrow> []))"
proof -
  have "\<exists>r. consume_chunk event full_response = Inr r"
  proof (cases event)
    case (JObj kvs)
    show ?thesis
    proof (cases "map_of kvs (str ''choices'')")
      case None
      with JObj show ?thesis by (simp add: consume_chunk_no_choices)
    next
      case (Some v)
      with assms JObj obtain choices where v: "v = JArr choices" and ok: "list_all choice_ok choices"
        by (auto simp: stream_event_def split: json.splits)
      show ?thesis
      proof (cases choices)
        case Nil
        with Some v JObj show ?thesis by (simp add: consume_chunk_falsy_choices)
      next
        case (Cons c rest)
        with ok have "choice_ok c" by simp
        then obtain choice delta where c: "c = JObj choice"
          and d: "map_of choice (str ''delta'') = Some (JObj delta)"
          and k: "delta_ok (JObj delta)"
          by (auto simp: choice_ok_def delta_ok_def split: json.splits option.splits)
        from Some v Cons c have "map_of kvs (str ''choices'') = Some (JArr (JObj choice # rest))"
          by simp
        from consume_chunk_delta [OF this d] k JObj show ?thesis
          by (auto simp: delta_ok_def split: option.splits json.splits)
      qed
    qed
  qed (use assms in \<open>simp_all add: stream_event_def\<close>)
  then obtain r where r: "consume_chunk event full_response = Inr r" ..
  from consume_chunk_content [OF r] r show ?thesis by simp
qed

lemma stream_event_delta_event: "stream_event (delta_event s)"
  by (simp add: stream_event_def delta_event_def choice_ok_def delta_ok_def)

lemma content_delta_delta_event: "content_delta (delta_event s) = Some s"
  by (simp add: content_delta_def delta_event_def)

lemma consume_content:
  "consume chunks full_response = Inr r \<Longrightarrow>
   r = full_response @ concat (List.map_filter content_delta chunks)"
proof (induction chunks arbitrary: full_response)
  case Nil
  then show ?case by (simp add: List.map_filter_simps)
next
  case (Cons chunk chunks)
  from Cons.prems obtain r1 where r1: "consume_chunk chunk full_response = Inr r1"
    and r: "consume chunks r1 = Inr r"
    by (cases "consume_chunk chunk full_response") simp_all
  from consume_chunk_content [OF r1] Cons.IH [OF r] show ?case
    by (simp add: List.map_filter_simps split: option.splits)
qed

lemma turn_Completed:
  assumes "turn loads env post user_input messages = (Completed full_response, history)"
    and "post (messages @ [user_message env user_input]) = Inr resp"
  shows "consume (fst (process_stream loads (iter_lines resp))) [] = Inr full_response"
    and "history = messages @ [user_message env user_input]
           @ (if full_response = [] then [] else [assistant_message full_response])"
  using assms
  by (auto simp: turn_def Let_def chat_completions_create_def
      split: if_splits sum.splits prod.splits option.splits)

lemma he_llo: "consume [delta_event (str ''He''), delta_event (str ''llo'')] [] = Inr (str ''Hello'')"
  by (simp add: consume_chunk_stream_event stream_event_delta_event content_delta_delta_event str_def)

lemma strip_hello: "strip (str ''hello'') = str ''hello''"
  by (simp add: strip_def str_def is_space_def)

lemma he_line: "utf8_decode he_payload = Inr (str he_payload)"
  by (rule utf8_decode_ascii) (simp add: he_payload_def)

lemma llo_line: "utf8_decode llo_payload = Inr (str llo_payload)"
  by (rule utf8_decode_ascii) (simp add: llo_payload_def)

lemma he_line_not_done: "bytes_strip (''data: '' @ he_payload) \<noteq> ''data: [DONE]''"
  by (simp add: he_payload_def bytes_strip_def is_space_byte_def)

lemma llo_line_not_done: "bytes_strip (''data: '' @ llo_payload) \<noteq> ''data: [DONE]''"
  by (simp add: llo_payload_def bytes_strip_def is_space_byte_def)

lemma sample_loads_he: "sample_loads (str he_payload) = Inr (delta_event (str ''He''))"
  by (simp add: sample_loads_def str_def he_payload_def hi_payload_def ignored_payload_def)

lemma sample_loads_llo: "sample_loads (str llo_payload) = Inr (delta_event (str ''llo''))"
  by (simp add: sample_loads_def str_def he_payload_def hi_payload_def ignored_payload_def
      llo_payload_def)

lemma sample_stream:
  "process_stream sample_loads (iter_lines sample_response) =
     ([delta_event (str ''He''), delta_event (str ''llo'')], None)"
proof -
  have "process_stream sample_loads [''data: [DONE]''] = ([], None)"
    using done_line by (rule process_stream_done)
  then have "process_stream sample_loads [''data: '' @ llo_payload, ''data: [DONE]'']
      = ([delta_event (str ''llo'')], None)"
    by (simp only: process_stream_data_line [OF llo_line llo_line_not_done] sample_loads_llo
        sum.case prod.case)
  then have "process_stream sample_loads [[], ''data: '' @ llo_payload, ''data: [DONE]'']
      = ([delta_event (str ''llo'')], None)"
    by simp
  then show ?thesis
    by (simp only: sample_response_def response.simps
        process_stream_data_line [OF he_line he_line_not_done] sample_loads_he sum.case prod.case)
qed

lemma str_hello_nonempty: "str ''Hello'' \<noteq> []" "str ''hello'' \<noteq> []"
  by (simp_all add: str_def)

lemma sample_turn:
  "turn sample_loads no_files sample_post (str ''hello'') messages =
     (Completed (str ''Hello''),
      messages @ [user_message no_files (str ''hello''), assistant_message (str ''Hello'')])"
proof -
  have c: "chat_completions_create sample_loads sample_post
      (messages @ [user_message no_files (str ''hello'')])
      = Inr ([delta_event (str ''He''), delta_event (str ''llo'')], None)"
    using sample_stream
    by (simp add: chat_completions_create_def sample_post_def) (simp add: sample_response_def)
  show ?thesis
    by (simp add: turn_def Let_def strip_hello str_hello_nonempty c he_llo del: consume.simps)
qed

lemma turn_failed:
  assumes "strip user_input \<noteq> []"
    and "chat_completions_create loads post (messages @ [user_message env user_input]) = Inl e"
  shows "turn loads env post user_input messages =
           (Failed e, messages @ [user_message env user_input])"
  using assms by (simp add: turn_def Let_def)

lemma chat_completions_create_fails:
  assumes "post messages = Inl e \<or>
     (\<exists>resp. post messages = Inr resp \<and> status_code resp \<noteq> 200 \<and>
        e = RequestFailed (status_code resp))"
  shows "chat_completions_create loads post messages = Inl e"
  using assms by (auto simp: chat_completions_create_def)

lemma strip_hi_word: "strip (str ''hi'') = str ''hi''"
  by (simp add: strip_def str_def is_space_def)

lemma str_hi_nonempty: "str ''hi'' \<noteq> []"
  by (simp add: str_def)

lemma failing_turn:
  "turn sample_loads no_files failing_post (str ''hi'') messages =
     (Failed ConnectionError, messages @ [user_message no_files (str ''hi'')])"
  by (simp add: turn_def Let_def strip_hi_word str_hi_nonempty chat_completions_create_def
      failing_post_def)

lemma turn_extends:
  "\<exists>suffix. snd (turn loads env post user_input messages) = messages @ suffix \<and>
     list_all speaks suffix"
  by (auto simp: turn_def Let_def user_message_def assistant_message_def speaks_def
      split: sum.splits prod.splits option.splits)

lemma main_loop_extends:
  "\<exists>suffix. main_loop loads inputs messages = messages @ suffix \<and> list_all speaks suffix"
proof (induction inputs arbitrary: messages)
  case Nil
  show ?case by simp
next
  case (Cons i inputs)
  obtain env post user_input where i: "i = (env, post, user_input)" by (cases i)
  from turn_extends obtain s1 where
    s1: "snd (turn loads env post user_input messages) = messages @ s1" "list_all speaks s1"
    by blast
  from Cons.IH obtain s2 where
    s2: "main_loop loads inputs (messages @ s1) = (messages @ s1) @ s2" "list_all speaks s2"
    by blast
  show ?case
    using s1 s2 by (intro exI [of _ "s1 @ s2"]) (simp add: i)
qed

lemma main_loop_append:
  "main_loop loads (inputs @ more_inputs) messages =
     main_loop loads more_inputs (main_loop loads inputs messages)"
  by (induction inputs arbitrary: messages) auto

lemma not_speaks_system: "m_role m = System \<Longrightarrow> \<not> speaks m"
  by (simp add: speaks_def)

lemma filter_system_speaks: "list_all speaks ms \<Longrightarrow> filter (\<lambda>m. m_role m = System) ms = []"
  by (induction ms) (auto simp: speaks_def)

section \<open>The image resolver\<close>

text \<open>
  C8.  A reference that starts with \<open>http://\<close> or \<open>https://\<close> is returned as it is, and
  nothing is asked of the file system and nothing is printed (the log is empty); so
  resolving the result again gives the same answer.
\<close>

theorem encode_remote_url:
  assumes "startswith (str ''http://'') reference \<or> startswith (str ''https://'') reference"
  shows "encode_image_to_base64 env reference = (Some reference, []) \<and>
         encode_image_to_base64 env (the (fst (encode_image_to_base64 env reference)))
           = encode_image_to_base64 env reference"
  using assms by (simp add: encode_image_to_base64_def)

theorem encode_remote_url_witness:
  "encode_image_to_base64 one_image (str ''https://example.org/a.png'')
      = (Some (str ''https://example.org/a.png''), []) \<and>
   encode_image_to_base64 one_image
      (the (fst (encode_image_to_base64 one_image (str ''https://example.org/a.png''))))
      = encode_image_to_base64 one_image (str ''https://example.org/a.png'')"
proof -
  have h: "startswith (str ''http://'') (str ''https://example.org/a.png'') \<or>
           startswith (str ''https://'') (str ''https://example.org/a.png'')"
    by (simp add: startswith_def str_def)
  show ?thesis using encode_remote_url [OF h] .
qed

section \<open>The content assembler\<close>

lemma finditer_hi: "finditer (str '' hi '') = []"
  by (simp add: finditer_def str_def finditer_from_Nil finditer_from_skip match_here_def
      startswith_def)

lemma strip_hi: "strip (str '' hi '') = str ''hi''"
  by (simp add: strip_def str_def is_space_def)

text \<open>
  C6.  The claim is that a text without image markers comes back as one Text block
  holding the input untrimmed.  On the input \<open>" hi "\<close> the loop finds no match, so
  \<open>last_end\<close> is 0 and the step after the loop appends the trimmed text; \<open>content\<close> is
  then not empty and the untrimmed fallback is not taken.
\<close>

theorem plain_text_is_trimmed:
  "process_user_input env (str '' hi '') = [Text (str ''hi'')] \<and>
   process_user_input env (str '' hi '') \<noteq> [Text (str '' hi '')]"
  by (simp add: process_user_input_def remaining_step_def finditer_hi strip_hi Let_def)
     (simp add: str_def)

section \<open>The stream decoder\<close>

text \<open>
  C2.  The claim is that no input makes the decoder raise.  The payload of a data line
  is decoded as UTF-8 before the \<open>try\<close> that catches the JSON error: on a line
  \<open>data: \<close> followed by the byte \<open>0xFF\<close> the \<open>UnicodeDecodeError\<close> leaves the generator, and
  the valid line after it is never read.
\<close>

theorem invalid_utf8_escapes:
  "process_stream loads [''data: '' @ [CHR 0xFF], ''data: {}''] = ([], Some UnicodeDecodeError)"
  by (simp add: bytes_strip_def is_space_byte_def startswith_def utf8_decode_ff)

text \<open>
  C5.  A line that is the sentinel \<open>data: [DONE]\<close> (surrounding ASCII whitespace apart)
  ends the sequence: whatever lines follow it, the decoder yields what it yields on the
  lines before it.  On the three lines of the specification it yields the first event
  alone, whatever the third line is, provided \<open>json.loads\<close> accepts the first payload.
\<close>

theorem stream_stops_at_sentinel:
  "(bytes_strip l = ''data: [DONE]'' \<longrightarrow>
      process_stream loads (pre @ l # post) = process_stream loads pre) \<and>
   (loads (str hi_payload) = Inr event \<longrightarrow>
      process_stream loads [''data: '' @ hi_payload, ''data: [DONE]'', third] = ([event], None))"
proof (intro conjI impI)
  assume "bytes_strip l = ''data: [DONE]''"
  then show "process_stream loads (pre @ l # post) = process_stream loads pre"
    by (rule process_stream_append_done)
next
  assume ev: "loads (str hi_payload) = Inr event"
  have "process_stream loads [''data: [DONE]'', third] = ([], None)"
    using done_line by (rule process_stream_done)
  then show "process_stream loads [''data: '' @ hi_payload, ''data: [DONE]'', third]
      = ([event], None)"
    by (simp only: process_stream_data_line [OF hi_line hi_line_not_done] ev sum.case prod.case)
qed

theorem stream_stops_at_sentinel_witness:
  "process_stream sample_loads
      ([''data: '' @ hi_payload] @ ''data: [DONE]'' # [''data: '' @ ignored_payload])
     = process_stream sample_loads [''data: '' @ hi_payload] \<and>
   process_stream sample_loads
      [''data: '' @ hi_payload, ''data: [DONE]'', ''data: '' @ ignored_payload]
     = ([delta_event (str ''hi'')], None)"
  using stream_stops_at_sentinel [of "''data: [DONE]''" sample_loads "[''data: '' @ hi_payload]"
      "[''data: '' @ ignored_payload]" "delta_event (str ''hi'')" "''data: '' @ ignored_payload"]
    done_line sample_loads_hi
  by blast

text \<open>
  C3.  The text is the concatenation of its segments, gaps and image markers, from left
  to right; the blocks returned are the blocks of these segments in the same order, a
  gap giving its trimmed text when that is not empty and a marker giving one block (when
  no segment gives a block, the one block is the text itself).  On
  \<open>see ![](img.png) now\<close>, with \<open>img.png\<close> resolved to the data URI, the blocks
  are the text \<open>see\<close>, the image and the text \<open>now\<close>.
\<close>

theorem blocks_in_source_order:
  "concat (map segment_text (segments text)) = text \<and>
   process_user_input env text =
     (if assemble env text = [] then [Text text] else assemble env text) \<and>
   (fst (encode_image_to_base64 env (str ''img.png'')) = Some (str ''data:image/jpeg;base64,AA=='')
      \<longrightarrow> process_user_input env (str ''see ![](img.png) now'') =
           [Text (str ''see''), Image_url (str ''data:image/jpeg;base64,AA==''), Text (str ''now'')])"
proof (intro conjI impI)
  show "concat (map segment_text (segments text)) = text"
    by (simp add: segments_def segments_from_concat)
  show "process_user_input env text =
     (if assemble env text = [] then [Text text] else assemble env text)"
    by (rule process_user_input_assemble)
  assume "fst (encode_image_to_base64 env (str ''img.png'')) = Some (str ''data:image/jpeg;base64,AA=='')"
  then show "process_user_input env (str ''see ![](img.png) now'') =
      [Text (str ''see''), Image_url (str ''data:image/jpeg;base64,AA==''), Text (str ''now'')]"
    by (simp add: process_user_input_assemble assemble_def segments_example strip_example
        str_nonempty marker_block_def)
qed

theorem blocks_in_source_order_witness:
  "concat (map segment_text (segments (str ''see ![](img.png) now''))) = str ''see ![](img.png) now'' \<and>
   process_user_input one_image (str ''see ![](img.png) now'') =
     [Text (str ''see''), Image_url (str ''data:image/jpeg;base64,AA==''), Text (str ''now'')]"
  using blocks_in_source_order [of "str ''see ![](img.png) now''" one_image] one_image_resolves
  by blast



text \<open>
  C10.  The claim is that the body of the loop fails on no decoded event.  The event
  \<open>{"choices": [{}]}\<close> passes the guard on \<open>choices\<close> and the subscript \<open>["delta"]\<close> then
  raises \<open>KeyError\<close>.
\<close>

theorem missing_delta_raises:
  "consume_chunk (JObj [(str ''choices'', JArr [JObj []])]) [] = Inl KeyError"
  by (simp add: consume_chunk_def)

text \<open>
  C10, as amended.  On an event of the shape the data model gives (an object whose
  \<open>choices\<close>, when present, is a list of objects that each hold a \<open>delta\<close> object whose
  \<open>content\<close>, when present, is a string or null) the body of the loop returns, and adds
  the content delta of the event, if any, to the accumulated string.  An empty \<open>choices\<close>
  list, a first delta without \<open>content\<close> and a null \<open>content\<close> leave the string as it is.
\<close>

theorem consume_chunk_total_on_stream_events:
  "(stream_event event \<longrightarrow>
      consume_chunk event full_response =
        Inr (full_response @ (case content_delta event of Some s \<Rightarrow> s | None \<Rightarrow> []))) \<and>
   (map_of kvs (str ''choices'') = Some (JArr []) \<longrightarrow>
      consume_chunk (JObj kvs) full_response = Inr full_response) \<and>
   (map_of kvs (str ''choices'') = Some (JArr (JObj choice # rest)) \<and>
    map_of choice (str ''delta'') = Some (JObj delta) \<and>
    (map_of delta (str ''content'') = None \<or> map_of delta (str ''content'') = Some JNull) \<longrightarrow>
      consume_chunk (JObj kvs) full_response = Inr full_response)"
proof (intro conjI impI)
  assume "stream_event event"
  then show "consume_chunk event full_response =
        Inr (full_response @ (case content_delta event of Some s \<Rightarrow> s | None \<Rightarrow> []))"
    by (rule consume_chunk_stream_event)
next
  assume "map_of kvs (str ''choices'') = Some (JArr [])"
  then show "consume_chunk (JObj kvs) full_response = Inr full_response"
    by (simp add: consume_chunk_falsy_choices)
next
  assume a: "map_of kvs (str ''choices'') = Some (JArr (JObj choice # rest)) \<and>
    map_of choice (str ''delta'') = Some (JObj delta) \<and>
    (map_of delta (str ''content'') = None \<or> map_of delta (str ''content'') = Some JNull)"
  then have a1: "map_of kvs (str ''choices'') = Some (JArr (JObj choice # rest))"
    and a2: "map_of choice (str ''delta'') = Some (JObj delta)"
    by blast+
  note consume_chunk_delta [OF a1 a2, of full_response]
  with a show "consume_chunk (JObj kvs) full_response = Inr full_response" by auto
qed

theorem consume_chunk_total_on_stream_events_witness:
  "consume_chunk (delta_event (str ''hi'')) (str ''oh '') = Inr (str ''oh hi'') \<and>
   consume_chunk (JObj [(str ''choices'', JArr [])]) (str ''oh '') = Inr (str ''oh '') \<and>
   consume_chunk (JObj [(str ''choices'', JArr [JObj [(str ''delta'', JObj [])]])]) (str ''oh '')
     = Inr (str ''oh '') \<and>
   consume_chunk
     (JObj [(str ''choices'', JArr [JObj [(str ''delta'', JObj [(str ''content'', JNull)])]])])
     (str ''oh '') = Inr (str ''oh '')"
proof -
  have j: "str ''oh '' @ str ''hi'' = str ''oh hi''" by (simp add: str_def)
  have 1: "consume_chunk (delta_event (str ''hi'')) (str ''oh '') = Inr (str ''oh hi'')"
    using consume_chunk_total_on_stream_events [of "delta_event (str ''hi'')" "str ''oh ''"]
      stream_event_delta_event [of "str ''hi''"]
    by (simp add: content_delta_delta_event j)
  have 2: "consume_chunk (JObj [(str ''choices'', JArr [])]) (str ''oh '') = Inr (str ''oh '')"
    using consume_chunk_total_on_stream_events
      [of _ "str ''oh ''" "[(str ''choices'', JArr [])]"]
    by simp
  have 3: "consume_chunk (JObj [(str ''choices'', JArr [JObj [(str ''delta'', JObj [])]])])
      (str ''oh '') = Inr (str ''oh '')"
    using consume_chunk_total_on_stream_events
      [of _ "str ''oh ''" "[(str ''choices'', JArr [JObj [(str ''delta'', JObj [])]])]"
          "[(str ''delta'', JObj [])]" "[]" "[]"]
    by simp
  have 4: "consume_chunk
     (JObj [(str ''choices'', JArr [JObj [(str ''delta'', JObj [(str ''content'', JNull)])]])])
     (str ''oh '') = Inr (str ''oh '')"
    using consume_chunk_total_on_stream_events
      [of _ "str ''oh ''"
          "[(str ''choices'', JArr [JObj [(str ''delta'', JObj [(str ''content'', JNull)])]])]"
          "[(str ''delta'', JObj [(str ''content'', JNull)])]" "[]" "[(str ''content'', JNull)]"]
    by simp
  from 1 2 3 4 show ?thesis by simp
qed

lemma finditer_hello: "finditer (str ''hello'') = []"
  by (simp add: finditer_def str_def finditer_from_Nil finditer_from_skip match_here_def
      startswith_def)

lemma process_user_input_hello: "process_user_input env (str ''hello'') = [Text (str ''hello'')]"
  by (simp add: process_user_input_def remaining_step_def finditer_hello strip_hello Let_def
      str_hello_nonempty)

text \<open>
  C4.  When a turn completes (the response is received, the stream ends without an
  exception and the loop fails on no event), the accumulated string is the concatenation,
  in order, of the content deltas of the events decoded; the history is then the history
  before the turn, the message of role user holding the assembled input and, when the
  string is not empty, exactly one message of role assistant whose content is the one
  Text block holding the string; when the string is empty no assistant message is
  appended.  The deltas \<open>He\<close> and \<open>llo\<close> accumulate to \<open>Hello\<close>.
\<close>

theorem completed_turn_commits_deltas:
  assumes "turn loads env post user_input messages = (Completed full_response, history)"
    and "post (messages @ [\<lparr>m_role = User, m_content = process_user_input env user_input\<rparr>])
           = Inr resp"
  shows "full_response =
           concat (List.map_filter content_delta (fst (process_stream loads (iter_lines resp)))) \<and>
         history =
           messages @ [\<lparr>m_role = User, m_content = process_user_input env user_input\<rparr>]
             @ (if full_response = [] then []
                else [\<lparr>m_role = Assistant, m_content = [Text full_response]\<rparr>]) \<and>
         consume [delta_event (str ''He''), delta_event (str ''llo'')] [] = Inr (str ''Hello'')"
proof -
  have p: "post (messages @ [user_message env user_input]) = Inr resp"
    using assms(2) by (simp add: user_message_def)
  from consume_content [OF turn_Completed(1) [OF assms(1) p]] turn_Completed(2) [OF assms(1) p]
    he_llo
  show ?thesis by (simp add: user_message_def assistant_message_def)
qed

theorem completed_turn_commits_deltas_witness:
  "turn sample_loads no_files sample_post (str ''hello'') initial_messages =
     (Completed (str ''Hello''),
      initial_messages @
        [\<lparr>m_role = User, m_content = [Text (str ''hello'')]\<rparr>,
         \<lparr>m_role = Assistant, m_content = [Text (str ''Hello'')]\<rparr>]) \<and>
   str ''Hello'' = concat (List.map_filter content_delta
      (fst (process_stream sample_loads (iter_lines sample_response)))) \<and>
   fst (process_stream sample_loads (iter_lines sample_response)) =
      [delta_event (str ''He''), delta_event (str ''llo'')]"
proof -
  have t: "turn sample_loads no_files sample_post (str ''hello'') initial_messages =
     (Completed (str ''Hello''),
      initial_messages @
        [\<lparr>m_role = User, m_content = [Text (str ''hello'')]\<rparr>,
         \<lparr>m_role = Assistant, m_content = [Text (str ''Hello'')]\<rparr>])"
    using sample_turn [of initial_messages]
    by (simp add: user_message_def assistant_message_def process_user_input_hello)
  have p: "sample_post (initial_messages @
      [\<lparr>m_role = User, m_content = process_user_input no_files (str ''hello'')\<rparr>])
      = Inr sample_response"
    by (simp add: sample_post_def)
  from completed_turn_commits_deltas [OF t p] t sample_stream show ?thesis
    by simp
qed

text \<open>
  C1.  The claim is that a turn whose transport call fails leaves the history as it was
  before the turn.  The user message is appended before the call and nothing removes it:
  after a connection error on the first turn the history holds two messages.
\<close>

theorem failed_turn_grows_history:
  "snd (turn sample_loads no_files failing_post (str ''hi'') initial_messages) =
     initial_messages @ [user_message no_files (str ''hi'')] \<and>
   snd (turn sample_loads no_files failing_post (str ''hi'') initial_messages) \<noteq> initial_messages"
  by (simp add: failing_turn)

text \<open>
  C1, as amended.  When the transport call of a turn fails (\<open>requests.post\<close> raises, or
  the status is not 200), the turn ends with that error, no event is consumed and no
  assistant message is appended: the history is the history before the turn followed by
  the user message of the turn; the loop goes on with the next input from that history.
\<close>

theorem failed_transport_keeps_user_message:
  assumes "strip user_input \<noteq> []"
    and "post (messages @ [user_message env user_input]) = Inl e \<or>
     (\<exists>resp. post (messages @ [user_message env user_input]) = Inr resp \<and>
        status_code resp \<noteq> 200 \<and> e = RequestFailed (status_code resp))"
  shows "turn loads env post user_input messages =
           (Failed e, messages @ [user_message env user_input]) \<and>
         main_loop loads ((env, post, user_input) # inputs) messages =
           main_loop loads inputs (messages @ [user_message env user_input])"
proof -
  have "chat_completions_create loads post (messages @ [user_message env user_input]) = Inl e"
    using assms(2)
    by (rule chat_completions_create_fails
        [where post = post and messages = "messages @ [user_message env user_input]"])
  from turn_failed [OF assms(1) this] show ?thesis by simp
qed

theorem failed_transport_keeps_user_message_witness:
  "turn sample_loads no_files failing_post (str ''hi'') initial_messages =
     (Failed ConnectionError, initial_messages @ [user_message no_files (str ''hi'')]) \<and>
   main_loop sample_loads
       [(no_files, failing_post, str ''hi''), (no_files, sample_post, str ''hello'')]
       initial_messages =
     initial_messages @ [user_message no_files (str ''hi''), user_message no_files (str ''hello''),
        assistant_message (str ''Hello'')]"
proof -
  have s: "strip (str ''hi'') \<noteq> []"
    by (simp add: strip_hi_word str_hi_nonempty)
  have f: "failing_post (initial_messages @ [user_message no_files (str ''hi'')]) = Inl ConnectionError \<or>
     (\<exists>resp. failing_post (initial_messages @ [user_message no_files (str ''hi'')]) = Inr resp \<and>
        status_code resp \<noteq> 200 \<and> ConnectionError = RequestFailed (status_code resp))"
    by (simp add: failing_post_def)
  from failed_transport_keeps_user_message
      [where user_input = "str ''hi''" and post = failing_post and messages = initial_messages
         and env = no_files and e = ConnectionError and loads = sample_loads
         and inputs = "[(no_files, sample_post, str ''hello'')]", OF s f]
  show ?thesis by (simp add: sample_turn)
qed

text \<open>
  C9.  After any number of passes of the loop, whatever the inputs, the file system and
  the transport did, the history is the one system message it was created with, followed
  by messages of the user and of the assistant only; and each pass leaves the history it
  found as a prefix of the history it hands on.
\<close>

theorem history_has_one_system_message:
  "take 1 (main loads inputs) = initial_messages \<and>
   m_role (hd (main loads inputs)) = System \<and>
   length (filter (\<lambda>m. m_role m = System) (main loads inputs)) = 1 \<and>
   list_all speaks (drop 1 (main loads inputs)) \<and>
   take (length (main loads inputs)) (main loads (inputs @ [next_input])) = main loads inputs \<and>
   list_all speaks (drop (length (main loads inputs)) (main loads (inputs @ [next_input])))"
proof -
  obtain suffix where s: "main loads inputs = initial_messages @ suffix" "list_all speaks suffix"
    unfolding main_def using main_loop_extends by blast
  obtain s2 where s2: "main loads (inputs @ [next_input]) = main loads inputs @ s2"
    "list_all speaks s2"
    unfolding main_def main_loop_append using main_loop_extends by blast
  have i: "length initial_messages = 1" "m_role (hd initial_messages) = System"
    "initial_messages \<noteq> []" "filter (\<lambda>m. m_role m = System) initial_messages = initial_messages"
    by (simp_all add: initial_messages_def)
  show ?thesis
    using s s2 i by (simp add: filter_system_speaks)
qed

theorem history_has_one_system_message_witness:
  "main sample_loads [(no_files, failing_post, str ''hi''), (no_files, sample_post, str ''hello'')]
     = initial_messages @ [user_message no_files (str ''hi''), user_message no_files (str ''hello''),
        assistant_message (str ''Hello'')] \<and>
   take 1 (main sample_loads [(no_files, failing_post, str ''hi'')]) = initial_messages \<and>
   length (filter (\<lambda>m. m_role m = System) (main sample_loads [(no_files, failing_post, str ''hi'')])) = 1 \<and>
   take (length (main sample_loads [(no_files, failing_post, str ''hi'')]))
     (main sample_loads ([(no_files, failing_post, str ''hi'')] @ [(no_files, sample_post, str ''hello'')]))
     = main sample_loads [(no_files, failing_post, str ''hi'')]"
proof -
  have m: "main sample_loads [(no_files, failing_post, str ''hi''), (no_files, sample_post, str ''hello'')]
     = initial_messages @ [user_message no_files (str ''hi''), user_message no_files (str ''hello''),
        assistant_message (str ''Hello'')]"
    by (simp add: main_def failing_turn sample_turn)
  from history_has_one_system_message
    [of sample_loads "[(no_files, failing_post, str ''hi'')]" "(no_files, sample_post, str ''hello'')"]
    m
  show ?thesis by blast
qed

end
